theory Spec2Isabelle
  imports Main "HOL-Library.Signed_Division"
begin

section \<open>Naegele calculator (edd.c): constants and return codes\<close>

text \<open>
  C \<open>int\<close> values are modelled as \<open>int\<close>: a date field comes from at most four
  scanned characters, and the due date from small sums of such values, far from the
  limits of a 32-bit integer.  The one conversion that can leave the range of \<open>int\<close>,
  that of the elapsed days in \<open>naegeles_compute_woa\<close>, is kept in range by a hypothesis
  where it matters.  C's \<open>/\<close> and \<open>%\<close> truncate towards zero; they are \<open>sdiv\<close> and
  \<open>smod\<close>.
\<close>

definition DATE_STR_MAX_LEN :: nat where
  "DATE_STR_MAX_LEN = 16"

definition WOA_STR_MAX_LEN :: nat where
  "WOA_STR_MAX_LEN = 32"

definition EDD_DAY_OFFSET :: int where
  "EDD_DAY_OFFSET = 7"

definition EDD_MONTH_OFFSET :: int where
  "EDD_MONTH_OFFSET = 3"

datatype naegeles_error_t =
    NAEGELES_OK
  | NAEGELES_ERR_NULL_PARAM
  | NAEGELES_ERR_INVALID_DATE
  | NAEGELES_ERR_DATE_CONVERSION
  | NAEGELES_ERR_SYSTEM_TIME
  | NAEGELES_ERR_FUTURE_DATE
  | NAEGELES_ERR_BUFFER_TOO_SMALL

fun error_code :: "naegeles_error_t \<Rightarrow> int" where
  "error_code NAEGELES_OK = 0"
| "error_code NAEGELES_ERR_NULL_PARAM = - 1"
| "error_code NAEGELES_ERR_INVALID_DATE = - 2"
| "error_code NAEGELES_ERR_DATE_CONVERSION = - 3"
| "error_code NAEGELES_ERR_SYSTEM_TIME = - 4"
| "error_code NAEGELES_ERR_FUTURE_DATE = - 5"
| "error_code NAEGELES_ERR_BUFFER_TOO_SMALL = - 6"

section \<open>Calendar helpers\<close>

definition is_leap_year :: "int \<Rightarrow> bool" where
  "is_leap_year year =
     ((year smod 4 = 0 \<and> year smod 100 \<noteq> 0) \<or> year smod 400 = 0)"

definition days :: "int list" where
  "days = [31, 28, 31, 30, 31, 30, 31, 31, 30, 31, 30, 31]"

definition days_in_month :: "int \<Rightarrow> int \<Rightarrow> int" where
  "days_in_month month year =
     (if month < 1 \<or> month > 12 then 0
      else if month = 2 \<and> is_leap_year year then 29
      else days ! nat (month - 1))"

definition is_valid_date :: "int \<Rightarrow> int \<Rightarrow> int \<Rightarrow> bool" where
  "is_valid_date day month year =
     (if year < 1900 \<or> year > 2100 then False
      else if month < 1 \<or> month > 12 then False
      else if day < 1 \<or> day > days_in_month month year then False
      else True)"

text \<open>
  The Gregorian calendar as the specification words it: the month lengths
  31, 28 or 29, 31, 30, 31, 30, 31, 31, 30, 31, 30, 31, with 29 days in February of a
  year that is divisible by 4 and not by 100, or divisible by 400.
\<close>

definition gregorian_leap :: "int \<Rightarrow> bool" where
  "gregorian_leap y = ((4 dvd y \<and> \<not> 100 dvd y) \<or> 400 dvd y)"

definition gregorian_month_length :: "int \<Rightarrow> int \<Rightarrow> int" where
  "gregorian_month_length m y =
     (if m = 2 then (if gregorian_leap y then 29 else 28)
      else if m = 4 \<or> m = 6 \<or> m = 9 \<or> m = 11 then 30
      else 31)"

section \<open>The day-overflow loop of \<open>naegeles_compute_edd\<close>\<close>

text \<open>
  The loop state is \<open>(day, month, year, max_days)\<close>.  \<open>edd_loop_cond\<close> is the loop
  test \<open>day > max_days\<close>, \<open>edd_loop_body\<close> one pass through the body, \<open>edd_loop\<close>
  the \<open>while\<close> statement.
\<close>

type_synonym edd_state = "int \<times> int \<times> int \<times> int"

fun edd_loop_cond :: "edd_state \<Rightarrow> bool" where
  "edd_loop_cond (day, month, year, max_days) = (day > max_days)"

fun edd_loop_body :: "edd_state \<Rightarrow> edd_state" where
  "edd_loop_body (day, month, year, max_days) =
     (let day1 = day - max_days;
          month1 = month + 1;
          month2 = (if month1 > 12 then 1 else month1);
          year2 = (if month1 > 12 then year + 1 else year)
      in (day1, month2, year2, days_in_month month2 year2))"

function edd_loop :: "edd_state \<Rightarrow> edd_state" where
  "edd_loop s = (if edd_loop_cond s then edd_loop (edd_loop_body s) else s)"
  by pat_completeness auto

text \<open>
  Lines 134 to 159 of \<open>naegeles_compute_edd\<close>.  \<open>edd_init\<close> is the state when the
  loop is reached: \<open>max_days\<close> has been read from the month and year as parsed, and
  then the day and the month have been shifted.  \<open>edd_date\<close> runs the loop from there
  and increments the year.
\<close>

definition edd_init :: "int \<Rightarrow> int \<Rightarrow> int \<Rightarrow> edd_state" where
  "edd_init day month year =
     (let max_days = days_in_month month year;
          day1 = day + EDD_DAY_OFFSET;
          month1 = (if month > 3 then month - EDD_MONTH_OFFSET
                    else month + (12 - EDD_MONTH_OFFSET));
          year1 = (if month > 3 then year else year - 1)
      in (day1, month1, year1, max_days))"

definition edd_date :: "int \<Rightarrow> int \<Rightarrow> int \<Rightarrow> int \<times> int \<times> int" where
  "edd_date day month year =
     (case edd_loop (edd_init day month year) of
        (day2, month2, year2, max_days2) \<Rightarrow> (day2, month2, year2 + 1))"

text \<open>
  The normalization as the specification words it: the day and month are shifted, and
  while the day exceeds the length of the current (shifted) month, that length is
  subtracted and the month advanced; the length is looked up again at every test, the
  first one too.
\<close>

type_synonym spec_state = "int \<times> int \<times> int"

fun spec_loop_cond :: "spec_state \<Rightarrow> bool" where
  "spec_loop_cond (day, month, year) = (day > days_in_month month year)"

fun spec_loop_body :: "spec_state \<Rightarrow> spec_state" where
  "spec_loop_body (day, month, year) =
     (day - days_in_month month year,
      if month + 1 > 12 then 1 else month + 1,
      if month + 1 > 12 then year + 1 else year)"

function spec_loop :: "spec_state \<Rightarrow> spec_state" where
  "spec_loop s = (if spec_loop_cond s then spec_loop (spec_loop_body s) else s)"
  by pat_completeness auto

definition edd_date_spec :: "int \<Rightarrow> int \<Rightarrow> int \<Rightarrow> int \<times> int \<times> int" where
  "edd_date_spec day month year =
     (let day1 = day + 7;
          month1 = (if month > 3 then month - 3 else month + 9);
          year1 = (if month > 3 then year else year - 1)
      in case spec_loop (day1, month1, year1) of
           (day2, month2, year2) \<Rightarrow> (day2, month2, year2 + 1))"

section \<open>\<open>sscanf\<close> and \<open>snprintf\<close>\<close>

text \<open>
  A C string is the list of its characters before the terminating NUL, and a pointer to
  one is an \<open>option\<close>, \<open>None\<close> being \<open>NULL\<close>.

  \<open>scan_int w\<close> is the conversion \<open>%wd\<close>: it skips white space, reads an optional
  sign and then decimal digits, at most \<open>w\<close> characters in all, and fails when it has
  read no digit.  \<open>scan_lit c\<close> is an ordinary character of the format, which must be
  the next character of the input.  \<open>sscanf_date\<close> is
  \<open>sscanf(lnmp, "%2d/%2d/%4d", day, month, year)\<close>: \<open>Some\<close> the three values when the
  call returns 3, \<open>None\<close> when it returns anything else (the caller then returns
  without reading the outputs).  What follows the third conversion is not looked at.
\<close>

definition isspace :: "char \<Rightarrow> bool" where
  "isspace c = (c = CHR '' '' \<or> (9 \<le> (of_char c :: nat) \<and> (of_char c :: nat) \<le> 13))"

definition isdigit :: "char \<Rightarrow> bool" where
  "isdigit c = (48 \<le> (of_char c :: nat) \<and> (of_char c :: nat) \<le> 57)"

definition digit_val :: "char \<Rightarrow> int" where
  "digit_val c = int (of_char c) - 48"

fun skip_ws :: "string \<Rightarrow> string" where
  "skip_ws [] = []"
| "skip_ws (c # cs) = (if isspace c then skip_ws cs else c # cs)"

fun scan_digits :: "nat \<Rightarrow> string \<Rightarrow> string \<times> string" where
  "scan_digits 0 cs = ([], cs)"
| "scan_digits (Suc w) [] = ([], [])"
| "scan_digits (Suc w) (c # cs) =
     (if isdigit c then (case scan_digits w cs of (ds, r) \<Rightarrow> (c # ds, r))
      else ([], c # cs))"

definition decimal_val :: "string \<Rightarrow> int" where
  "decimal_val ds = foldl (\<lambda>acc c. 10 * acc + digit_val c) 0 ds"

definition scan_int :: "nat \<Rightarrow> string \<Rightarrow> (int \<times> string) option" where
  "scan_int w s =
     (case skip_ws s of
        [] \<Rightarrow> None
      | c # cs \<Rightarrow>
          if c = CHR ''-'' \<or> c = CHR ''+'' then
            (case scan_digits (w - 1) cs of
               (ds, r) \<Rightarrow>
                 if ds = [] then None
                 else Some (if c = CHR ''-'' then - decimal_val ds else decimal_val ds, r))
          else
            (case scan_digits w (c # cs) of
               (ds, r) \<Rightarrow> if ds = [] then None else Some (decimal_val ds, r)))"

definition scan_lit :: "char \<Rightarrow> string \<Rightarrow> string option" where
  "scan_lit c s = (case s of [] \<Rightarrow> None | x # xs \<Rightarrow> if x = c then Some xs else None)"

definition sscanf_date :: "string \<Rightarrow> (int \<times> int \<times> int) option" where
  "sscanf_date s =
     (case scan_int 2 s of None \<Rightarrow> None
      | Some (day, s1) \<Rightarrow>
     (case scan_lit CHR ''/'' s1 of None \<Rightarrow> None
      | Some s2 \<Rightarrow>
     (case scan_int 2 s2 of None \<Rightarrow> None
      | Some (month, s3) \<Rightarrow>
     (case scan_lit CHR ''/'' s3 of None \<Rightarrow> None
      | Some s4 \<Rightarrow>
     (case scan_int 4 s4 of None \<Rightarrow> None
      | Some (year, s5) \<Rightarrow> Some (day, month, year))))))"

text \<open>
  \<open>show_nat\<close> and \<open>show_int\<close> print in decimal (\<open>%d\<close>); \<open>show_int_0\<close> \<open>w\<close> is
  \<open>%0wd\<close>, which pads with zeros after the sign up to \<open>w\<close> characters and never cuts.
  \<open>snprintf buf n msg\<close> keeps at most \<open>n - 1\<close> characters of the text and leaves
  the buffer alone when the size \<open>n\<close> is 0.
\<close>

definition digit_char :: "nat \<Rightarrow> char" where
  "digit_char n = char_of (48 + n)"

fun show_nat :: "nat \<Rightarrow> string" where
  "show_nat n = (if n < 10 then [digit_char n]
                 else show_nat (n div 10) @ [digit_char (n mod 10)])"

declare show_nat.simps [simp del]

definition show_int :: "int \<Rightarrow> string" where
  "show_int i = (if i < 0 then CHR ''-'' # show_nat (nat (- i)) else show_nat (nat i))"

definition show_int_0 :: "nat \<Rightarrow> int \<Rightarrow> string" where
  "show_int_0 w i =
     (let sign = (if i < 0 then [CHR ''-''] else []);
          ds = show_nat (nat \<bar>i\<bar>)
      in sign @ replicate (w - length sign - length ds) CHR ''0'' @ ds)"

definition snprintf :: "string \<Rightarrow> nat \<Rightarrow> string \<Rightarrow> string" where
  "snprintf buf n msg = (if n = 0 then buf else take (n - 1) msg)"

definition format_date :: "int \<times> int \<times> int \<Rightarrow> string" where
  "format_date dmy =
     (case dmy of (day, month, year) \<Rightarrow>
        show_int_0 2 day @ ''/'' @ show_int_0 2 month @ ''/'' @ show_int_0 4 year)"

section \<open>The API functions\<close>

definition parse_date :: "string option \<Rightarrow> (int \<times> int \<times> int) option" where
  "parse_date lnmp =
     (case lnmp of
        None \<Rightarrow> None
      | Some s \<Rightarrow>
          if length s \<noteq> 10 then None
          else (case sscanf_date s of
                  None \<Rightarrow> None
                | Some (day, month, year) \<Rightarrow>
                    if \<not> is_valid_date day month year then None
                    else Some (day, month, year)))"

text \<open>
  An API function gets the input string, the output buffer (its content before the
  call) and the buffer's size, and returns its code with the buffer's content after the
  call.
\<close>

definition naegeles_compute_edd ::
  "string option \<Rightarrow> string option \<Rightarrow> nat \<Rightarrow> naegeles_error_t \<times> string option" where
  "naegeles_compute_edd lnmp edd_out edd_out_size =
     (case edd_out of
        None \<Rightarrow> (NAEGELES_ERR_NULL_PARAM, None)
      | Some buf \<Rightarrow>
          if lnmp = None then (NAEGELES_ERR_NULL_PARAM, edd_out)
          else if edd_out_size < DATE_STR_MAX_LEN then (NAEGELES_ERR_BUFFER_TOO_SMALL, edd_out)
          else (case parse_date lnmp of
                  None \<Rightarrow>
                    (NAEGELES_ERR_INVALID_DATE,
                     Some (snprintf buf edd_out_size ''Invalid date''))
                | Some (day, month, year) \<Rightarrow>
                    (NAEGELES_OK,
                     Some (snprintf buf edd_out_size (format_date (edd_date day month year))))))"

text \<open>
  The clock and the platform's calendar are parameters of \<open>naegeles_compute_woa\<close>:
  \<open>mktime tm_year tm_mon tm_mday\<close> is the result of \<open>mktime\<close> on a \<open>struct tm\<close> with
  these fields, midnight and \<open>tm_isdst = -1\<close>, and \<open>now\<close> is the result of
  \<open>time(NULL)\<close>; both are seconds, \<open>-1\<close> reporting failure.  \<open>difftime\<close> is the
  difference of the two readings, and the conversion of its quotient by 86400 to \<open>int\<close>
  truncates.
\<close>

definition woa_text :: "int \<Rightarrow> string" where
  "woa_text total_days =
     (let weeks = total_days sdiv 7;
          days_left = total_days smod 7
      in if days_left > 0 then
           show_int weeks @ '' '' @ (if weeks = 1 then ''week'' else ''weeks'') @ '', '' @
           show_int days_left @ '' '' @ (if days_left = 1 then ''day'' else ''days'')
         else show_int weeks @ '' '' @ (if weeks = 1 then ''week'' else ''weeks''))"

text \<open>
  The text of the specification: weeks and days are the quotient and the remainder of
  the whole days by 7, each followed by its unit, singular exactly for the value 1, the
  days left out when there are none.
\<close>

definition woa_spec_text :: "int \<Rightarrow> string" where
  "woa_spec_text total_days =
     (let weeks = total_days div 7;
          rest = total_days mod 7;
          week_word = (if weeks = 1 then ''week'' else ''weeks'');
          day_word = (if rest = 1 then ''day'' else ''days'')
      in if rest > 0 then show_int weeks @ '' '' @ week_word @ '', '' @ show_int rest @ '' '' @ day_word
         else show_int weeks @ '' '' @ week_word)"

definition naegeles_compute_woa ::
  "(int \<Rightarrow> int \<Rightarrow> int \<Rightarrow> int) \<Rightarrow> int \<Rightarrow>
   string option \<Rightarrow> string option \<Rightarrow> nat \<Rightarrow> naegeles_error_t \<times> string option" where
  "naegeles_compute_woa mktime now lnmp woa_out woa_out_size =
     (case woa_out of
        None \<Rightarrow> (NAEGELES_ERR_NULL_PARAM, None)
      | Some buf \<Rightarrow>
          if lnmp = None then (NAEGELES_ERR_NULL_PARAM, woa_out)
          else if woa_out_size < WOA_STR_MAX_LEN then (NAEGELES_ERR_BUFFER_TOO_SMALL, woa_out)
          else (case parse_date lnmp of
                  None \<Rightarrow>
                    (NAEGELES_ERR_INVALID_DATE,
                     Some (snprintf buf woa_out_size ''Invalid date''))
                | Some (day, month, year) \<Rightarrow>
                    let lnmp_time = mktime (year - 1900) (month - 1) day in
                    if lnmp_time = - 1 then
                      (NAEGELES_ERR_DATE_CONVERSION,
                       Some (snprintf buf woa_out_size ''Date conversion error''))
                    else if now = - 1 then
                      (NAEGELES_ERR_SYSTEM_TIME,
                       Some (snprintf buf woa_out_size ''System time error''))
                    else
                      let diff_seconds = now - lnmp_time in
                      if diff_seconds < 0 then
                        (NAEGELES_ERR_FUTURE_DATE,
                         Some (snprintf buf woa_out_size ''LNMP is in the future''))
                      else
                        (NAEGELES_OK,
                         Some (snprintf buf woa_out_size (woa_text (diff_seconds sdiv 86400))))))"

definition naegeles_compute ::
  "(int \<Rightarrow> int \<Rightarrow> int \<Rightarrow> int) \<Rightarrow> int \<Rightarrow> string option \<Rightarrow>
   string option \<Rightarrow> nat \<Rightarrow> string option \<Rightarrow> nat \<Rightarrow>
   naegeles_error_t \<times> string option \<times> string option" where
  "naegeles_compute mktime now lnmp edd_out edd_out_size woa_out woa_out_size =
     (case naegeles_compute_edd lnmp edd_out edd_out_size of
        (edd_result, edd_buf) \<Rightarrow>
          if edd_result \<noteq> NAEGELES_OK then (edd_result, edd_buf, woa_out)
          else (case naegeles_compute_woa mktime now lnmp woa_out woa_out_size of
                  (woa_result, woa_buf) \<Rightarrow> (woa_result, edd_buf, woa_buf)))"

section \<open>Calendar facts and termination of the loops\<close>

lemma days_bounds: "\<forall>x \<in> set days. 28 \<le> x \<and> x \<le> 31"
  by (simp add: days_def)

lemma days_length: "length days = 12"
  by (simp add: days_def)

lemma days_nth_mem:
  assumes "1 \<le> m" "m \<le> 12"
  shows "days ! nat (m - 1) \<in> set days"
proof -
  from assms have "nat (m - 1) < 12" by simp
  then have "nat (m - 1) < length days" by (simp only: days_length)
  then show ?thesis by (rule nth_mem)
qed

lemma days_in_month_lower:
  assumes "1 \<le> m" "m \<le> 12"
  shows "28 \<le> days_in_month m y"
proof -
  from assms have "days ! nat (m - 1) \<in> set days" by (rule days_nth_mem)
  with days_bounds have "28 \<le> days ! nat (m - 1)" by blast
  with assms show ?thesis by (simp add: days_in_month_def)
qed

lemma days_in_month_upper: "days_in_month m y \<le> 31"
proof (cases "1 \<le> m \<and> m \<le> 12")
  case True
  then have "days ! nat (m - 1) \<in> set days" by (simp add: days_nth_mem)
  with days_bounds have "days ! nat (m - 1) \<le> 31" by blast
  then show ?thesis by (simp add: days_in_month_def)
next
  case False
  then show ?thesis by (auto simp: days_in_month_def)
qed

text \<open>
  The loop terminates from every state, also from one that no valid date produces: a
  month below 1 climbs to 1, a month above 12 wraps to 1, after one pass \<open>max_days\<close> is
  the length of the current month, and from then on each pass takes at least 28 days
  off a positive \<open>day\<close>.
\<close>

termination edd_loop
proof (relation "measures [\<lambda>(d, m, y, x). nat (1 - m),
                           \<lambda>(d, m, y, x). if 12 < m then 1 else 0,
                           \<lambda>(d, m, y, x). if x = days_in_month m y then 0 else 1,
                           \<lambda>(d, m, y, x). nat d]", goal_cases)
  case 1
  show ?case by simp
next
  case (2 s)
  obtain d m y x where s: "s = (d, m, y, x)" by (cases s)
  from 2 s have c: "x < d" by simp
  consider "m < 0" | "m = 0" | "12 < m"
    | "1 \<le> m" "m < 12" "x \<noteq> days_in_month m y"
    | "m = 12" "x \<noteq> days_in_month m y"
    | "1 \<le> m" "m < 12" "x = days_in_month m y"
    | "m = 12" "x = days_in_month m y"
    by linarith
  then show ?case
  proof cases
    case 1 then show ?thesis using s by (simp add: Let_def)
  next
    case 2 then show ?thesis using s by (simp add: Let_def)
  next
    case 3 then show ?thesis using s by (simp add: Let_def)
  next
    case 4 then show ?thesis using s by (simp add: Let_def)
  next
    case 5 then show ?thesis using s by (simp add: Let_def)
  next
    case 6
    with days_in_month_lower [of m y] have "28 \<le> x" by simp
    with 6 c show ?thesis using s by (simp add: Let_def)
  next
    case 7
    with days_in_month_lower [of m y] have "28 \<le> x" by simp
    with 7 c show ?thesis using s by (simp add: Let_def)
  qed
qed

declare edd_loop.simps [simp del]

text \<open>The specification's loop terminates for the same reasons.\<close>

termination spec_loop
proof (relation "measures [\<lambda>(d, m, y). nat (1 - m),
                           \<lambda>(d, m, y). if 12 < m then 1 else 0,
                           \<lambda>(d, m, y). nat d]", goal_cases)
  case 1
  show ?case by simp
next
  case (2 s)
  obtain d m y where s: "s = (d, m, y)" by (cases s)
  from 2 s have c: "days_in_month m y < d" by simp
  consider "m < 0" | "m = 0" | "12 < m" | "1 \<le> m" "m < 12" | "m = 12"
    by linarith
  then show ?case
  proof cases
    case 1 then show ?thesis using s by simp
  next
    case 2 then show ?thesis using s by simp
  next
    case 3 then show ?thesis using s by simp
  next
    case 4
    with days_in_month_lower [of m y] have "28 \<le> days_in_month m y" by simp
    with 4 c show ?thesis using s by simp
  next
    case 5
    with days_in_month_lower [of m y] have "28 \<le> days_in_month m y" by simp
    with 5 c show ?thesis using s by simp
  qed
qed

declare spec_loop.simps [simp del]

section \<open>Scanning what was printed\<close>

lemma isdigit_digit_char: "k < 10 \<Longrightarrow> isdigit (digit_char k)"
  by (simp add: digit_char_def isdigit_def)

lemma digit_val_digit_char: "k < 10 \<Longrightarrow> digit_val (digit_char k) = int k"
  by (simp add: digit_char_def digit_val_def)

lemma isdigit_zero: "isdigit CHR ''0''"
  by (simp add: isdigit_def)

lemma digit_val_zero: "digit_val CHR ''0'' = 0"
  by (simp add: digit_val_def)

lemma isdigit_not_special:
  "isdigit c \<Longrightarrow> \<not> isspace c \<and> c \<noteq> CHR ''-'' \<and> c \<noteq> CHR ''+''"
  by (auto simp add: isdigit_def isspace_def)

lemma decimal_val_snoc: "decimal_val (ds @ [c]) = 10 * decimal_val ds + digit_val c"
  by (simp add: decimal_val_def)

lemma show_nat_isdigit: "\<forall>c \<in> set (show_nat n). isdigit c"
proof (induction n rule: show_nat.induct)
  case (1 n)
  show ?case
  proof (cases "n < 10")
    case True
    then show ?thesis by (subst show_nat.simps) (simp add: isdigit_digit_char)
  next
    case False
    with 1 show ?thesis by (subst show_nat.simps) (simp add: isdigit_digit_char)
  qed
qed

lemma decimal_val_show_nat: "decimal_val (show_nat n) = int n"
proof (induction n rule: show_nat.induct)
  case (1 n)
  show ?case
  proof (cases "n < 10")
    case True
    then show ?thesis
      by (subst show_nat.simps) (simp add: decimal_val_def digit_val_digit_char)
  next
    case False
    with 1 have "decimal_val (show_nat (n div 10)) = int (n div 10)" by simp
    moreover have "int (10 * (n div 10) + n mod 10) = int n" by simp
    then have "10 * int (n div 10) + int (n mod 10) = int n"
      by (simp only: of_nat_add of_nat_mult of_nat_numeral)
    ultimately show ?thesis using False
      by (subst show_nat.simps) (simp add: decimal_val_snoc digit_val_digit_char)
  qed
qed

lemma show_nat_nonempty: "show_nat n \<noteq> []"
  by (subst show_nat.simps) simp

lemma length_show_nat: "0 < k \<Longrightarrow> n < 10 ^ k \<Longrightarrow> length (show_nat n) \<le> k"
proof (induction n arbitrary: k rule: show_nat.induct)
  case (1 n)
  show ?case
  proof (cases "n < 10")
    case True
    with 1 show ?thesis by (subst show_nat.simps) simp
  next
    case False
    with 1(2,3) have "1 < k" by (cases "k = 1") auto
    then obtain j where k: "k = Suc j" "0 < j" by (cases k) auto
    with 1(3) have "n div 10 < 10 ^ j" by (simp add: less_mult_imp_div_less mult.commute)
    with 1(1) [of j] False k have "length (show_nat (n div 10)) \<le> j" by simp
    with False k show ?thesis by (subst show_nat.simps) simp
  qed
qed


lemma decimal_val_zeros: "decimal_val (replicate k CHR ''0'' @ ds) = decimal_val ds"
proof -
  have "foldl (\<lambda>acc c. 10 * acc + digit_val c) 0 (replicate k CHR ''0'') = 0"
    by (induction k) (simp_all add: digit_val_zero)
  then show ?thesis by (simp add: decimal_val_def)
qed

lemma scan_digits_all:
  "\<forall>c \<in> set ds. isdigit c \<Longrightarrow> scan_digits (length ds) (ds @ r) = (ds, r)"
  by (induction ds) simp_all

lemma scan_int_digits:
  assumes "\<forall>c \<in> set ds. isdigit c" "ds \<noteq> []" "length ds = w"
  shows "scan_int w (ds @ r) = Some (decimal_val ds, r)"
proof -
  from assms obtain c cs where ds: "ds = c # cs" by (cases ds) auto
  with assms have c: "isdigit c" by simp
  then have "\<not> isspace c" "c \<noteq> CHR ''-''" "c \<noteq> CHR ''+''"
    using isdigit_not_special [of c] by simp_all
  moreover from assms have "scan_digits w (ds @ r) = (ds, r)"
    using scan_digits_all [of ds r] by simp
  ultimately show ?thesis using ds by (simp add: scan_int_def)
qed

lemma show_int_0_digits:
  assumes "0 \<le> i" "i < 10 ^ w" "0 < w"
  shows "length (show_int_0 w i) = w"
    and "\<forall>c \<in> set (show_int_0 w i). isdigit c"
    and "decimal_val (show_int_0 w i) = i"
proof -
  from assms have "nat i < 10 ^ w" by (simp add: nat_less_iff)
  with assms have len: "length (show_nat (nat i)) \<le> w" by (simp add: length_show_nat)
  from assms have eq: "show_int_0 w i = replicate (w - length (show_nat (nat i))) CHR ''0'' @ show_nat (nat i)"
    by (simp add: show_int_0_def Let_def)
  from len show "length (show_int_0 w i) = w" by (simp add: eq)
  show "\<forall>c \<in> set (show_int_0 w i). isdigit c"
    using show_nat_isdigit [of "nat i"] by (auto simp: eq isdigit_zero)
  from assms show "decimal_val (show_int_0 w i) = i"
    by (simp add: eq decimal_val_zeros decimal_val_show_nat)
qed

lemma sscanf_format_date:
  assumes "0 \<le> d" "d < 100" "0 \<le> m" "m < 100" "0 \<le> y" "y < 10000"
  shows "sscanf_date (format_date (d, m, y)) = Some (d, m, y)"
    and "length (format_date (d, m, y)) = 10"
proof -
  let ?D = "show_int_0 2 d" and ?M = "show_int_0 2 m" and ?Y = "show_int_0 4 y"
  have D: "length ?D = 2" "\<forall>c \<in> set ?D. isdigit c" "decimal_val ?D = d"
    using assms show_int_0_digits [of d 2] by simp_all
  have M: "length ?M = 2" "\<forall>c \<in> set ?M. isdigit c" "decimal_val ?M = m"
    using assms show_int_0_digits [of m 2] by simp_all
  have Y: "length ?Y = 4" "\<forall>c \<in> set ?Y. isdigit c" "decimal_val ?Y = y"
    using assms show_int_0_digits [of y 4] by simp_all
  from D(1) M(1) Y(1) have ne: "?D \<noteq> []" "?M \<noteq> []" "?Y \<noteq> []" by auto
  have 1: "scan_int 2 (?D @ CHR ''/'' # ?M @ CHR ''/'' # ?Y) = Some (d, CHR ''/'' # ?M @ CHR ''/'' # ?Y)"
    using scan_int_digits [OF D(2) ne(1) D(1)] D(3) by simp
  have 2: "scan_int 2 (?M @ CHR ''/'' # ?Y) = Some (m, CHR ''/'' # ?Y)"
    using scan_int_digits [OF M(2) ne(2) M(1)] M(3) by simp
  have 3: "scan_int 4 ?Y = Some (y, [])"
    using scan_int_digits [OF Y(2) ne(3) Y(1), of "[]"] Y(3) by simp
  show "sscanf_date (format_date (d, m, y)) = Some (d, m, y)"
    by (simp add: sscanf_date_def format_date_def 1 2 3 scan_lit_def)
  show "length (format_date (d, m, y)) = 10"
    by (simp add: format_date_def D M Y)
qed

section \<open>Leap years, month lengths and the loop on valid dates\<close>

lemma smod_eq_0_iff: "(a::int) smod b = 0 \<longleftrightarrow> b dvd a"
proof -
  have "(a smod b = 0) = (a = 0 \<or> \<bar>a\<bar> mod \<bar>b\<bar> = 0)"
    by (simp add: signed_modulo_int_def sgn_if)
  also have "\<dots> = (a = 0 \<or> \<bar>b\<bar> dvd \<bar>a\<bar>)"
    by (simp only: dvd_eq_mod_eq_0)
  also have "\<dots> = (b dvd a)"
    by auto
  finally show ?thesis .
qed

lemma smod_nonneg: "0 \<le> a \<Longrightarrow> 0 < b \<Longrightarrow> (a::int) smod b = a mod b"
  by (simp add: signed_modulo_int_def sgn_if)

lemma sdiv_nonneg: "0 \<le> a \<Longrightarrow> 0 < b \<Longrightarrow> (a::int) sdiv b = a div b"
  by (simp add: signed_divide_int_def sgn_if)

lemma is_leap_year_gregorian: "is_leap_year y = gregorian_leap y"
  by (simp add: is_leap_year_def gregorian_leap_def smod_eq_0_iff)

lemma month_cases:
  assumes "1 \<le> m" "m \<le> 12"
  obtains "m = 1" | "m = 2" | "m = 3" | "m = 4" | "m = 5" | "m = 6"
    | "m = 7" | "m = 8" | "m = 9" | "m = 10" | "m = 11" | "(m::int) = 12"
proof -
  from assms have "m \<in> set [1..12]" by simp
  then have "m \<in> {1,2,3,4,5,6,7,8,9,10,11,12}"
    by (simp only: upto_rec_numeral upto_empty upto_single list.set simp_thms numeral_le_iff numeral_eq_iff numeral_plus_numeral num.simps if_True if_False semiring_norm)
  then show thesis using that by blast
qed

lemma days_in_month_eq:
  assumes "1 \<le> m" "m \<le> 12"
  shows "days_in_month m y = gregorian_month_length m y"
  using assms
  by (cases m rule: month_cases)
     (simp_all add: days_in_month_def gregorian_month_length_def days_def is_leap_year_gregorian)

lemma valid_dateD:
  assumes "is_valid_date d m y"
  shows "1900 \<le> y" "y \<le> 2100" "1 \<le> m" "m \<le> 12" "1 \<le> d" "d \<le> days_in_month m y"
  using assms by (auto simp: is_valid_date_def split: if_splits)

lemma edd_init_month:
  assumes "1 \<le> m" "m \<le> 12"
  obtains d1 m1 y1 where "edd_init d m y = (d + 7, m1, y1, days_in_month m y)"
    "1 \<le> m1" "m1 \<le> 12" "y - 1 \<le> y1" "y1 \<le> y" "m1 = (if m > 3 then m - 3 else m + 9)"
    "y1 = (if m > 3 then y else y - 1)"
  using assms by (auto simp: edd_init_def EDD_DAY_OFFSET_def EDD_MONTH_OFFSET_def Let_def)

lemma edd_loop_body_stops:
  assumes "is_valid_date d m y"
  shows "\<not> edd_loop_cond (edd_loop_body (edd_init d m y))"
proof -
  note v = valid_dateD [OF assms]
  from v obtain m1 y1 where i: "edd_init d m y = (d + 7, m1, y1, days_in_month m y)"
    and m1: "1 \<le> m1" "m1 \<le> 12"
    by (auto elim: edd_init_month [of m d y])
  let ?m2 = "if m1 + 1 > 12 then 1 else m1 + 1"
  let ?y2 = "if m1 + 1 > 12 then y1 + 1 else y1"
  from m1 have "1 \<le> ?m2" "?m2 \<le> 12" by auto
  then have "28 \<le> days_in_month ?m2 ?y2" by (rule days_in_month_lower)
  moreover have "edd_loop_body (edd_init d m y) = (d + 7 - days_in_month m y, ?m2, ?y2, days_in_month ?m2 ?y2)"
    by (simp add: i Let_def)
  moreover from v have "d + 7 - days_in_month m y \<le> 7" by simp
  ultimately show ?thesis by simp
qed

lemma edd_loop_valid:
  assumes "is_valid_date d m y"
  shows "edd_loop (edd_init d m y) =
    (if edd_loop_cond (edd_init d m y) then edd_loop_body (edd_init d m y) else edd_init d m y)"
proof (cases "edd_loop_cond (edd_init d m y)")
  case True
  then have "edd_loop (edd_init d m y) = edd_loop (edd_loop_body (edd_init d m y))"
    by (subst edd_loop.simps) simp
  also have "\<dots> = edd_loop_body (edd_init d m y)"
    using edd_loop_body_stops [OF assms] by (subst edd_loop.simps) simp
  finally show ?thesis using True by simp
next
  case False
  then show ?thesis by (subst edd_loop.simps) simp
qed

lemma parse_date_format_date:
  assumes "is_valid_date d m y"
  shows "parse_date (Some (format_date (d, m, y))) = Some (d, m, y)"
proof -
  from assms have "0 \<le> d" "0 \<le> m" "0 \<le> y" "m < 100" "y < 10000" "d \<le> days_in_month m y"
    by (auto simp: is_valid_date_def split: if_splits)
  moreover have "days_in_month m y \<le> 31" by (rule days_in_month_upper)
  ultimately show ?thesis
    using assms by (simp add: parse_date_def sscanf_format_date)
qed

lemma snprintf_fits: "length msg < n \<Longrightarrow> snprintf buf n msg = msg"
  by (simp add: snprintf_def)

lemma edd_date_valid:
  assumes "is_valid_date d m y"
  shows "edd_date d m y =
    (let m1 = (if m > 3 then m - 3 else m + 9);
         y1 = (if m > 3 then y else y - 1)
     in if days_in_month m y < d + 7
        then (d + 7 - days_in_month m y,
              if m1 = 12 then 1 else m1 + 1,
              if m1 = 12 then y1 + 2 else y1 + 1)
        else (d + 7, m1, y1 + 1))"
proof -
  note v = valid_dateD [OF assms]
  from v obtain m1 y1 where i: "edd_init d m y = (d + 7, m1, y1, days_in_month m y)"
    and m1: "1 \<le> m1" "m1 \<le> 12" "m1 = (if m > 3 then m - 3 else m + 9)"
    and y1: "y1 = (if m > 3 then y else y - 1)"
    by (auto elim: edd_init_month [of m d y])
  show ?thesis
    unfolding edd_date_def edd_loop_valid [OF assms]
    using m1 y1 by (auto simp: i Let_def)
qed

lemma edd_date_bounds:
  assumes "is_valid_date d m y" "edd_date d m y = (d', m', y')"
  shows "1 \<le> d'" "d' \<le> 31" "1 \<le> m'" "m' \<le> 12" "1900 \<le> y'" "y' \<le> 2101"
    "days_in_month m y < d + 7 \<Longrightarrow> d' \<le> days_in_month m' y'"
proof -
  note v = valid_dateD [OF assms(1)]
  note e = assms(2) [unfolded edd_date_valid [OF assms(1)] Let_def]
  have u: "days_in_month m y \<le> 31" by (rule days_in_month_upper)
  from e v u show "1 \<le> d'" "d' \<le> 31" "1 \<le> m'" "m' \<le> 12" "1900 \<le> y'" "y' \<le> 2101"
    by (auto split: if_splits)
  assume o: "days_in_month m y < d + 7"
  from e v o have "d' \<le> 7" by (auto split: if_splits)
  moreover from \<open>1 \<le> m'\<close> \<open>m' \<le> 12\<close> have "28 \<le> days_in_month m' y'"
    by (rule days_in_month_lower)
  ultimately show "d' \<le> days_in_month m' y'" by simp
qed

lemma parse_dateD:
  assumes "parse_date (Some s) = Some (d, m, y)"
  shows "is_valid_date d m y" "length s = 10" "sscanf_date s = Some (d, m, y)"
  using assms by (auto simp: parse_date_def split: if_splits option.splits)

lemma naegeles_compute_edd_parsed:
  assumes "parse_date (Some s) = Some (d, m, y)" "DATE_STR_MAX_LEN \<le> n"
    "length (format_date (edd_date d m y)) < n"
  shows "naegeles_compute_edd (Some s) (Some buf) n =
           (NAEGELES_OK, Some (format_date (edd_date d m y)))"
  using assms by (simp add: naegeles_compute_edd_def snprintf_fits)

lemma naegeles_compute_edd_unparsed:
  assumes "parse_date (Some s) = None" "DATE_STR_MAX_LEN \<le> n"
  shows "naegeles_compute_edd (Some s) (Some buf) n =
           (NAEGELES_ERR_INVALID_DATE, Some ''Invalid date'')"
  using assms by (simp add: naegeles_compute_edd_def snprintf_def DATE_STR_MAX_LEN_def)

lemma naegeles_compute_woa_unparsed:
  assumes "parse_date (Some s) = None" "WOA_STR_MAX_LEN \<le> n"
  shows "naegeles_compute_woa mktime now (Some s) (Some buf) n =
           (NAEGELES_ERR_INVALID_DATE, Some ''Invalid date'')"
  using assms by (simp add: naegeles_compute_woa_def snprintf_def WOA_STR_MAX_LEN_def)

section \<open>Facts about the API functions\<close>

lemma woa_text_spec: "0 \<le> t \<Longrightarrow> woa_text t = woa_spec_text t"
  by (simp add: woa_text_def woa_spec_text_def sdiv_nonneg smod_nonneg Let_def)

lemma length_show_int_nonneg:
  assumes "0 \<le> i" "i < 10 ^ k" "0 < k"
  shows "length (show_int i) \<le> k"
proof -
  from assms have "nat i < 10 ^ k" by (simp add: nat_less_iff)
  with assms show ?thesis by (simp add: show_int_def length_show_nat)
qed

lemma length_woa_text:
  assumes "0 \<le> t" "t < 2 ^ 31"
  shows "length (woa_text t) \<le> 24"
proof -
  from assms have "0 \<le> t div 7" "t div 7 < 10 ^ 10" by simp_all
  then have w: "length (show_int (t div 7)) \<le> 10"
    by (rule length_show_int_nonneg) simp
  have "0 \<le> t mod 7" "t mod 7 < 10 ^ 1" by simp_all
  then have r: "length (show_int (t mod 7)) \<le> 1"
    by (rule length_show_int_nonneg) simp
  have ww: "length (if t div 7 = 1 then ''week'' else ''weeks'') \<le> 5" by simp
  have dw: "length (if t mod 7 = 1 then ''day'' else ''days'') \<le> 4" by simp
  show ?thesis
  proof (cases "0 < t mod 7")
    case True
    then have "length (woa_text t) =
        length (show_int (t div 7)) + 1 +
        length (if t div 7 = 1 then ''week'' else ''weeks'') + 2 +
        length (show_int (t mod 7)) + 1 +
        length (if t mod 7 = 1 then ''day'' else ''days'')"
      by (simp add: woa_text_spec [OF assms(1)] woa_spec_text_def Let_def split del: if_split)
    with w r ww dw show ?thesis by linarith
  next
    case False
    then have "length (woa_text t) =
        length (show_int (t div 7)) + 1 +
        length (if t div 7 = 1 then ''week'' else ''weeks'')"
      by (simp add: woa_text_spec [OF assms(1)] woa_spec_text_def Let_def split del: if_split)
    with w ww show ?thesis by linarith
  qed
qed

lemma naegeles_compute_woa_parsed:
  assumes "parse_date (Some s) = Some (d, m, y)" "WOA_STR_MAX_LEN \<le> n"
    "mktime (y - 1900) (m - 1) d = t" "t \<noteq> - 1" "now \<noteq> - 1"
  shows "naegeles_compute_woa mktime now (Some s) (Some buf) n =
     (if now - t < 0 then (NAEGELES_ERR_FUTURE_DATE, Some ''LNMP is in the future'')
      else (NAEGELES_OK, Some (snprintf buf n (woa_text ((now - t) sdiv 86400)))))"
  using assms
  by (simp add: naegeles_compute_woa_def Let_def snprintf_def WOA_STR_MAX_LEN_def)

lemma naegeles_compute_edd_code:
  assumes "parse_date (Some s) = Some (d, m, y)" "DATE_STR_MAX_LEN \<le> n"
  shows "fst (naegeles_compute_edd (Some s) (Some buf) n) = NAEGELES_OK"
  using assms by (simp add: naegeles_compute_edd_def)

lemma naegeles_compute_woa_code:
  assumes "parse_date (Some s) = Some (d, m, y)" "WOA_STR_MAX_LEN \<le> n"
  shows "fst (naegeles_compute_woa mktime now (Some s) (Some buf) n) =
     (if mktime (y - 1900) (m - 1) d = - 1 then NAEGELES_ERR_DATE_CONVERSION
      else if now = - 1 then NAEGELES_ERR_SYSTEM_TIME
      else if now - mktime (y - 1900) (m - 1) d < 0 then NAEGELES_ERR_FUTURE_DATE
      else NAEGELES_OK)"
  using assms by (simp add: naegeles_compute_woa_def Let_def)

lemma naegeles_compute_code:
  "fst (naegeles_compute mktime now lnmp eo en wo wn) =
     (if fst (naegeles_compute_edd lnmp eo en) \<noteq> NAEGELES_OK
      then fst (naegeles_compute_edd lnmp eo en)
      else fst (naegeles_compute_woa mktime now lnmp wo wn))"
  by (simp add: naegeles_compute_def split: prod.splits)

lemma invalid_inputs_unparsed:
  "parse_date (Some ''31/02/2024'') = None"
  "parse_date (Some ''00/01/2024'') = None"
  "parse_date (Some ''01/13/2024'') = None"
  "parse_date (Some ''2024/01/01'') = None"
  "parse_date (Some []) = None"
  by code_simp+

section \<open>The claims\<close>

subsection \<open>Round trip of the due date\<close>

text \<open>
  C1.  The due date of a valid LNMP does not always parse as a valid date.  LNMP
  23/05/2023 parses as 23 May 2023; \<open>max_days\<close> is May's 31, day + 7 is 30, the loop
  is not entered, and \<open>naegeles_compute_edd\<close> succeeds with 30/02/2024, a day that
  February 2024 does not have and that \<open>parse_date\<close> rejects.
\<close>

theorem edd_invalid_output:
  "parse_date (Some ''23/05/2023'') = Some (23, 5, 2023)
   \<and> edd_init 23 5 2023 = (30, 2, 2023, 31)
   \<and> \<not> edd_loop_cond (edd_init 23 5 2023)
   \<and> naegeles_compute_edd (Some ''23/05/2023'') (Some []) 16 = (NAEGELES_OK, Some ''30/02/2024'')
   \<and> days_in_month 2 2024 = 29
   \<and> parse_date (Some ''30/02/2024'') = None"
  by code_simp

subsection \<open>What the loop subtracts\<close>

text \<open>
  C2 (as amended).  The statement that the loop tests and subtracts the length of the
  shifted month from its first pass on fails: at LNMP 28/02/2024 the code subtracts
  February's 29 days and yields 6 December 2024, where the specification's wording
  subtracts November's 30 and yields 5 December 2024.  What holds is this.  For every
  valid date whose day + 7 exceeds the length of the LNMP's own month, the loop runs
  its body once, subtracting that length and advancing the shifted month (12 wrapping
  to 1 with the year advanced).  For every valid date whose day + 7 fits both the
  LNMP's own month and the shifted month, the loop changes nothing.  The valid dates
  in neither case, whose day + 7 fits the LNMP's own month and not the shifted one,
  are those of C1, and nothing is said of them here.
\<close>

theorem edd_normalization:
  assumes "is_valid_date d m y"
    and "m1 = (if m > 3 then m - 3 else m + 9)"
    and "y1 = (if m > 3 then y else y - 1)"
  shows "(days_in_month m y < d + 7 \<longrightarrow>
            edd_loop (edd_init d m y) = edd_loop_body (edd_init d m y)
            \<and> edd_date d m y =
                (d + 7 - days_in_month m y,
                 if m1 = 12 then 1 else m1 + 1,
                 if m1 = 12 then y1 + 2 else y1 + 1))
       \<and> (d + 7 \<le> days_in_month m y \<and> d + 7 \<le> days_in_month m1 (y1 + 1) \<longrightarrow>
            edd_loop (edd_init d m y) = edd_init d m y
            \<and> edd_date d m y = (d + 7, m1, y1 + 1))"
proof -
  have c: "edd_loop_cond (edd_init d m y) = (days_in_month m y < d + 7)"
    by (simp add: edd_init_def Let_def EDD_DAY_OFFSET_def)
  show ?thesis
    using edd_loop_valid [OF assms(1)] edd_date_valid [OF assms(1)] assms(2,3)
    by (simp add: c Let_def)
qed

theorem edd_normalization_witness:
  "is_valid_date 28 2 2024 \<and> days_in_month 2 2024 < (28::int) + 7
   \<and> edd_date 28 2 2024 = (6, 12, 2024)
   \<and> is_valid_date 15 6 2023 \<and> (15::int) + 7 \<le> days_in_month 6 2023
   \<and> (15::int) + 7 \<le> days_in_month 3 2024
   \<and> edd_date 15 6 2023 = (22, 3, 2024)"
proof -
  have v1: "is_valid_date 28 2 2024" by code_simp
  have o1: "days_in_month 2 2024 < (28::int) + 7" by code_simp
  have d1: "days_in_month 2 2024 = 29" by code_simp
  have v2: "is_valid_date 15 6 2023" by code_simp
  have o2: "(15::int) + 7 \<le> days_in_month 6 2023" by code_simp
  have o3: "(15::int) + 7 \<le> days_in_month 3 2024" by code_simp
  from edd_normalization [OF v1, of 11 2023] o1 d1
  have "edd_date 28 2 2024 = (6, 12, 2024)" by simp
  moreover from edd_normalization [OF v2, of 3 2023] o2 o3
  have "edd_date 15 6 2023 = (22, 3, 2024)" by simp
  ultimately show ?thesis using v1 o1 v2 o2 o3 by simp
qed

theorem edd_normalization_counterexample:
  "is_valid_date 28 2 2024
   \<and> edd_date 28 2 2024 = (6, 12, 2024)
   \<and> edd_date_spec 28 2 2024 = (5, 12, 2024)
   \<and> edd_date 28 2 2024 \<noteq> edd_date_spec 28 2 2024"
  by code_simp

subsection \<open>Known due dates\<close>

text \<open>
  C3.  With a buffer of at least \<open>DATE_STR_MAX_LEN\<close> bytes, \<open>naegeles_compute_edd\<close>
  succeeds with 08/10/2024 for LNMP 01/01/2024, with 22/03/2024 for LNMP 15/06/2023 and
  with 06/12/2024 for LNMP 28/02/2024.
\<close>

theorem edd_known_values:
  assumes "DATE_STR_MAX_LEN \<le> n"
  shows "naegeles_compute_edd (Some ''01/01/2024'') (Some buf) n =
           (NAEGELES_OK, Some ''08/10/2024'')
       \<and> naegeles_compute_edd (Some ''15/06/2023'') (Some buf) n =
           (NAEGELES_OK, Some ''22/03/2024'')
       \<and> naegeles_compute_edd (Some ''28/02/2024'') (Some buf) n =
           (NAEGELES_OK, Some ''06/12/2024'')"
proof -
  from assms have n: "10 < n" by (simp add: DATE_STR_MAX_LEN_def)
  have p1: "parse_date (Some ''01/01/2024'') = Some (1, 1, 2024)" by code_simp
  have f1: "format_date (edd_date 1 1 2024) = ''08/10/2024''" by code_simp
  have p2: "parse_date (Some ''15/06/2023'') = Some (15, 6, 2023)" by code_simp
  have f2: "format_date (edd_date 15 6 2023) = ''22/03/2024''" by code_simp
  have p3: "parse_date (Some ''28/02/2024'') = Some (28, 2, 2024)" by code_simp
  have f3: "format_date (edd_date 28 2 2024) = ''06/12/2024''" by code_simp
  have "naegeles_compute_edd (Some ''01/01/2024'') (Some buf) n =
      (NAEGELES_OK, Some ''08/10/2024'')"
    using naegeles_compute_edd_parsed [OF p1 assms, of buf] n by (simp add: f1)
  moreover have "naegeles_compute_edd (Some ''15/06/2023'') (Some buf) n =
      (NAEGELES_OK, Some ''22/03/2024'')"
    using naegeles_compute_edd_parsed [OF p2 assms, of buf] n by (simp add: f2)
  moreover have "naegeles_compute_edd (Some ''28/02/2024'') (Some buf) n =
      (NAEGELES_OK, Some ''06/12/2024'')"
    using naegeles_compute_edd_parsed [OF p3 assms, of buf] n by (simp add: f3)
  ultimately show ?thesis by simp
qed

theorem edd_known_values_witness:
  "DATE_STR_MAX_LEN \<le> 16
   \<and> naegeles_compute_edd (Some ''01/01/2024'') (Some []) 16 = (NAEGELES_OK, Some ''08/10/2024'')
   \<and> naegeles_compute_edd (Some ''15/06/2023'') (Some []) 16 = (NAEGELES_OK, Some ''22/03/2024'')
   \<and> naegeles_compute_edd (Some ''28/02/2024'') (Some []) 16 = (NAEGELES_OK, Some ''06/12/2024'')"
proof -
  have n: "DATE_STR_MAX_LEN \<le> 16" by (simp add: DATE_STR_MAX_LEN_def)
  from edd_known_values [OF n, of "[]"] n show ?thesis by simp
qed

subsection \<open>What \<open>parse_date\<close> accepts\<close>

text \<open>
  C4.  \<open>parse_date\<close> accepts strings of 10 characters that are not of the form
  dd/mm/yyyy: a field with a leading space, a field with a sign, and one-digit fields
  followed by two stray characters all parse as 1 January 2024, as the well-formed
  01/01/2024 does.
\<close>

theorem parse_date_lenient:
  "parse_date (Some '' 1/01/2024'') = Some (1, 1, 2024)
   \<and> parse_date (Some ''+1/01/2024'') = Some (1, 1, 2024)
   \<and> parse_date (Some ''1/1/2024xy'') = Some (1, 1, 2024)
   \<and> parse_date (Some ''01/01/2024'') = Some (1, 1, 2024)"
  by code_simp

subsection \<open>Error codes of invalid input\<close>

text \<open>
  C5 (as amended).  The code has one code for a malformed string and for an impossible
  date, \<open>NAEGELES_ERR_INVALID_DATE\<close> (-2): the strings 31/02/2024, 00/01/2024,
  01/13/2024, 2024/01/01 and the empty string all fail with it, in
  \<open>naegeles_compute_edd\<close>, \<open>naegeles_compute_woa\<close> and \<open>naegeles_compute\<close>; a null
  input fails with \<open>NAEGELES_ERR_NULL_PARAM\<close> (-1).
\<close>

theorem error_kinds:
  assumes "DATE_STR_MAX_LEN \<le> en" and "WOA_STR_MAX_LEN \<le> wn"
    and "s \<in> {''31/02/2024'', ''00/01/2024'', ''01/13/2024'', ''2024/01/01'', []}"
  shows "fst (naegeles_compute_edd (Some s) (Some ebuf) en) = NAEGELES_ERR_INVALID_DATE
       \<and> fst (naegeles_compute_woa mktime now (Some s) (Some wbuf) wn) = NAEGELES_ERR_INVALID_DATE
       \<and> fst (naegeles_compute mktime now (Some s) (Some ebuf) en (Some wbuf) wn) =
           NAEGELES_ERR_INVALID_DATE
       \<and> fst (naegeles_compute_edd None (Some ebuf) en) = NAEGELES_ERR_NULL_PARAM
       \<and> fst (naegeles_compute_woa mktime now None (Some wbuf) wn) = NAEGELES_ERR_NULL_PARAM
       \<and> fst (naegeles_compute mktime now None (Some ebuf) en (Some wbuf) wn) =
           NAEGELES_ERR_NULL_PARAM
       \<and> error_code NAEGELES_ERR_INVALID_DATE = - 2
       \<and> error_code NAEGELES_ERR_NULL_PARAM = - 1"
proof -
  from assms(3) have p: "parse_date (Some s) = None"
    using invalid_inputs_unparsed by auto
  have e: "fst (naegeles_compute_edd (Some s) (Some ebuf) en) = NAEGELES_ERR_INVALID_DATE"
    by (simp add: naegeles_compute_edd_unparsed [OF p assms(1)])
  have w: "fst (naegeles_compute_woa mktime now (Some s) (Some wbuf) wn) =
      NAEGELES_ERR_INVALID_DATE"
    by (simp add: naegeles_compute_woa_unparsed [OF p assms(2)])
  have ne: "fst (naegeles_compute_edd None (Some ebuf) en) = NAEGELES_ERR_NULL_PARAM"
    by (simp add: naegeles_compute_edd_def)
  have nw: "fst (naegeles_compute_woa mktime now None (Some wbuf) wn) = NAEGELES_ERR_NULL_PARAM"
    by (simp add: naegeles_compute_woa_def)
  from e w ne nw show ?thesis by (simp add: naegeles_compute_code)
qed

theorem error_kinds_witness:
  "fst (naegeles_compute_edd (Some ''2024/01/01'') (Some []) 16) = NAEGELES_ERR_INVALID_DATE
   \<and> fst (naegeles_compute_woa (\<lambda>ty tm td. 1704067200) 1710000000
        (Some ''2024/01/01'') (Some []) 32) = NAEGELES_ERR_INVALID_DATE
   \<and> fst (naegeles_compute (\<lambda>ty tm td. 1704067200) 1710000000
        (Some ''31/02/2024'') (Some []) 16 (Some []) 32) = NAEGELES_ERR_INVALID_DATE
   \<and> fst (naegeles_compute_edd None (Some []) 16) = NAEGELES_ERR_NULL_PARAM"
proof -
  have e: "DATE_STR_MAX_LEN \<le> 16" by (simp add: DATE_STR_MAX_LEN_def)
  have w: "WOA_STR_MAX_LEN \<le> 32" by (simp add: WOA_STR_MAX_LEN_def)
  from error_kinds [OF e w, of "''2024/01/01''" "[]" "\<lambda>ty tm td. 1704067200" 1710000000 "[]"]
    error_kinds [OF e w, of "''31/02/2024''" "[]" "\<lambda>ty tm td. 1704067200" 1710000000 "[]"]
  show ?thesis by simp
qed

theorem error_kinds_counterexample:
  "fst (naegeles_compute_edd (Some ''2024/01/01'') (Some []) 16) = NAEGELES_ERR_INVALID_DATE
   \<and> fst (naegeles_compute_edd (Some ''31/02/2024'') (Some []) 16) = NAEGELES_ERR_INVALID_DATE
   \<and> \<not> (fst (naegeles_compute_edd (Some ''2024/01/01'') (Some []) 16)
          \<noteq> fst (naegeles_compute_edd (Some ''31/02/2024'') (Some []) 16))"
  by code_simp

subsection \<open>Number of passes through the loop\<close>

text \<open>
  C6 (as amended).  No valid LNMP makes the loop run its body twice: after one pass the
  day is at most 7.  For every valid date the loop's test fails after one pass of the
  body, so the \<open>while\<close> statement equals a single conditional subtract-and-increment.
\<close>

theorem loop_at_most_once:
  assumes "is_valid_date d m y"
  shows "\<not> edd_loop_cond (edd_loop_body (edd_init d m y))
     \<and> edd_loop (edd_init d m y) =
         (if edd_loop_cond (edd_init d m y) then edd_loop_body (edd_init d m y)
          else edd_init d m y)"
  using edd_loop_body_stops [OF assms] edd_loop_valid [OF assms] by simp

theorem loop_at_most_once_witness:
  "is_valid_date 28 2 2024
   \<and> edd_loop_cond (edd_init 28 2 2024)
   \<and> \<not> edd_loop_cond (edd_loop_body (edd_init 28 2 2024))
   \<and> edd_loop (edd_init 28 2 2024) = edd_loop_body (edd_init 28 2 2024)"
proof -
  have v: "is_valid_date 28 2 2024" by code_simp
  have c: "edd_loop_cond (edd_init 28 2 2024)" by code_simp
  from loop_at_most_once [OF v] v c show ?thesis by simp
qed

theorem loop_iterations_counterexample:
  "\<not> (\<exists>d m y. is_valid_date d m y
         \<and> edd_loop_cond (edd_init d m y)
         \<and> edd_loop_cond (edd_loop_body (edd_init d m y)))"
  using edd_loop_body_stops by blast

subsection \<open>Weeks and days\<close>

text \<open>
  C7.  For every LNMP string that parses as a valid date, with both clock readings
  available, a non-negative difference and a number of whole days that fits C's
  \<open>int\<close>, \<open>naegeles_compute_woa\<close> succeeds with the text of the specification for
  \<open>floor (seconds / 86400)\<close> days: 70 days give 10 weeks, 73 days give 10 weeks, 3 days,
  1 day gives 0 weeks, 1 day, and 7 days give 1 week.
\<close>

theorem woa_weeks_days:
  assumes "parse_date (Some s) = Some (d, m, y)"
    and "WOA_STR_MAX_LEN \<le> n"
    and "mktime (y - 1900) (m - 1) d = t" and "t \<noteq> - 1" and "now \<noteq> - 1"
    and "0 \<le> now - t" and "(now - t) div 86400 < 2 ^ 31"
  shows "naegeles_compute_woa mktime now (Some s) (Some buf) n =
           (NAEGELES_OK, Some (woa_spec_text ((now - t) div 86400)))
       \<and> (now - t = 70 * 86400 \<longrightarrow>
            naegeles_compute_woa mktime now (Some s) (Some buf) n =
              (NAEGELES_OK, Some ''10 weeks''))
       \<and> (now - t = 73 * 86400 \<longrightarrow>
            naegeles_compute_woa mktime now (Some s) (Some buf) n =
              (NAEGELES_OK, Some ''10 weeks, 3 days''))
       \<and> (now - t = 1 * 86400 \<longrightarrow>
            naegeles_compute_woa mktime now (Some s) (Some buf) n =
              (NAEGELES_OK, Some ''0 weeks, 1 day''))
       \<and> (now - t = 7 * 86400 \<longrightarrow>
            naegeles_compute_woa mktime now (Some s) (Some buf) n =
              (NAEGELES_OK, Some ''1 week''))"
proof -
  let ?td = "(now - t) div 86400"
  from assms(6) have td: "0 \<le> ?td" by simp
  from assms(6) have sd: "(now - t) sdiv 86400 = ?td" by (simp add: sdiv_nonneg)
  from td assms(7) have "length (woa_text ?td) \<le> 24" by (rule length_woa_text)
  with assms(2) have "length (woa_text ?td) < n" by (simp add: WOA_STR_MAX_LEN_def)
  then have "snprintf buf n (woa_text ?td) = woa_spec_text ?td"
    by (simp add: snprintf_fits woa_text_spec [OF td])
  with assms(6) have r: "naegeles_compute_woa mktime now (Some s) (Some buf) n =
      (NAEGELES_OK, Some (woa_spec_text ?td))"
    using naegeles_compute_woa_parsed [of s d m y n mktime t now buf] assms(1-5)
    by (simp add: sd)
  have "woa_spec_text 70 = ''10 weeks''" by code_simp
  moreover have "woa_spec_text 73 = ''10 weeks, 3 days''" by code_simp
  moreover have "woa_spec_text 1 = ''0 weeks, 1 day''" by code_simp
  moreover have "woa_spec_text 7 = ''1 week''" by code_simp
  ultimately show ?thesis using r by simp
qed

theorem woa_weeks_days_witness:
  "parse_date (Some ''01/01/2024'') = Some (1, 1, 2024)
   \<and> naegeles_compute_woa (\<lambda>ty tm td. 1704067200) (1704067200 + 73 * 86400 + 3599)
        (Some ''01/01/2024'') (Some []) 32 = (NAEGELES_OK, Some ''10 weeks, 3 days'')
   \<and> naegeles_compute_woa (\<lambda>ty tm td. 1704067200) (1704067200 + 70 * 86400)
        (Some ''01/01/2024'') (Some []) 32 = (NAEGELES_OK, Some ''10 weeks'')"
proof -
  have p: "parse_date (Some ''01/01/2024'') = Some (1, 1, 2024)" by code_simp
  have n: "WOA_STR_MAX_LEN \<le> 32" by (simp add: WOA_STR_MAX_LEN_def)
  have t: "woa_spec_text 73 = ''10 weeks, 3 days''" by code_simp
  have "naegeles_compute_woa (\<lambda>ty tm td. 1704067200) (1704067200 + 73 * 86400 + 3599)
        (Some ''01/01/2024'') (Some []) 32 = (NAEGELES_OK, Some ''10 weeks, 3 days'')"
    using woa_weeks_days [OF p n, of "\<lambda>ty tm td. 1704067200" 1704067200
        "1704067200 + 73 * 86400 + 3599" "[]"] t
    by simp
  moreover have "naegeles_compute_woa (\<lambda>ty tm td. 1704067200) (1704067200 + 70 * 86400)
        (Some ''01/01/2024'') (Some []) 32 = (NAEGELES_OK, Some ''10 weeks'')"
    using woa_weeks_days [OF p n, of "\<lambda>ty tm td. 1704067200" 1704067200
        "1704067200 + 70 * 86400" "[]"]
    by auto
  ultimately show ?thesis using p by simp
qed

subsection \<open>An LNMP in the future\<close>

text \<open>
  C8.  For every LNMP string that parses as a valid date, \<open>naegeles_compute_woa\<close>
  returns \<open>NAEGELES_ERR_FUTURE_DATE\<close> exactly when both clock readings are available
  and the current reading is before the LNMP's midnight; then \<open>naegeles_compute_edd\<close>
  succeeds and \<open>naegeles_compute\<close> returns \<open>NAEGELES_ERR_FUTURE_DATE\<close> too.
\<close>

theorem woa_future_date:
  assumes "parse_date (Some s) = Some (d, m, y)"
    and "DATE_STR_MAX_LEN \<le> en" and "WOA_STR_MAX_LEN \<le> wn"
    and "t = mktime (y - 1900) (m - 1) d"
  shows "(fst (naegeles_compute_woa mktime now (Some s) (Some wbuf) wn) = NAEGELES_ERR_FUTURE_DATE
            \<longleftrightarrow> t \<noteq> - 1 \<and> now \<noteq> - 1 \<and> now - t < 0)
       \<and> (t \<noteq> - 1 \<and> now \<noteq> - 1 \<and> now - t < 0 \<longrightarrow>
            fst (naegeles_compute_edd (Some s) (Some ebuf) en) = NAEGELES_OK
            \<and> fst (naegeles_compute mktime now (Some s) (Some ebuf) en (Some wbuf) wn) =
                NAEGELES_ERR_FUTURE_DATE)"
  using assms(4)
  by (simp add: naegeles_compute_code naegeles_compute_edd_code [OF assms(1,2)]
      naegeles_compute_woa_code [OF assms(1,3)])

theorem woa_future_date_witness:
  "parse_date (Some ''01/01/2024'') = Some (1, 1, 2024)
   \<and> fst (naegeles_compute_woa (\<lambda>ty tm td. 1704067200) 1700000000
        (Some ''01/01/2024'') (Some []) 32) = NAEGELES_ERR_FUTURE_DATE
   \<and> fst (naegeles_compute_edd (Some ''01/01/2024'') (Some []) 16) = NAEGELES_OK
   \<and> fst (naegeles_compute (\<lambda>ty tm td. 1704067200) 1700000000
        (Some ''01/01/2024'') (Some []) 16 (Some []) 32) = NAEGELES_ERR_FUTURE_DATE
   \<and> fst (naegeles_compute_woa (\<lambda>ty tm td. 1704067200) 1704067200
        (Some ''01/01/2024'') (Some []) 32) \<noteq> NAEGELES_ERR_FUTURE_DATE"
proof -
  have p: "parse_date (Some ''01/01/2024'') = Some (1, 1, 2024)" by code_simp
  have e: "DATE_STR_MAX_LEN \<le> 16" by (simp add: DATE_STR_MAX_LEN_def)
  have w: "WOA_STR_MAX_LEN \<le> 32" by (simp add: WOA_STR_MAX_LEN_def)
  from woa_future_date [OF p e w, of 1704067200 "\<lambda>ty tm td. 1704067200" 1700000000 "[]" "[]"]
    woa_future_date [OF p e w, of 1704067200 "\<lambda>ty tm td. 1704067200" 1704067200 "[]" "[]"]
    p
  show ?thesis by simp
qed

subsection \<open>Month lengths\<close>

text \<open>
  C9.  For every month from 1 to 12 and every year (those from 1900 to 2100 among them)
  \<open>days_in_month\<close> is the Gregorian length of the month; February has 29 days exactly
  when \<open>is_leap_year\<close> holds, which is when the year is divisible by 4 and not by 100,
  or by 400 (2000, 2400 and 2024 are leap years, 1900, 2100 and 2023 are not); for a
  month outside 1..12 the result is 0.
\<close>

theorem days_in_month_gregorian:
  "(1 \<le> m \<and> m \<le> 12 \<longrightarrow> days_in_month m y = gregorian_month_length m y)
   \<and> (days_in_month 2 y = 29 \<longleftrightarrow> is_leap_year y)
   \<and> (is_leap_year y \<longleftrightarrow> (4 dvd y \<and> \<not> 100 dvd y) \<or> 400 dvd y)
   \<and> is_leap_year 2000 \<and> is_leap_year 2400 \<and> is_leap_year 2024
   \<and> \<not> is_leap_year 1900 \<and> \<not> is_leap_year 2100 \<and> \<not> is_leap_year 2023
   \<and> (m < 1 \<or> 12 < m \<longrightarrow> days_in_month m y = 0)"
proof -
  have a: "1 \<le> m \<and> m \<le> 12 \<longrightarrow> days_in_month m y = gregorian_month_length m y"
    by (simp add: days_in_month_eq)
  have b: "days_in_month 2 y = 29 \<longleftrightarrow> is_leap_year y"
    by (simp add: days_in_month_def days_def)
  have c: "is_leap_year y \<longleftrightarrow> (4 dvd y \<and> \<not> 100 dvd y) \<or> 400 dvd y"
    by (simp add: is_leap_year_gregorian gregorian_leap_def)
  have d: "is_leap_year 2000 \<and> is_leap_year 2400 \<and> is_leap_year 2024
     \<and> \<not> is_leap_year 1900 \<and> \<not> is_leap_year 2100 \<and> \<not> is_leap_year 2023"
    by code_simp
  have e: "m < 1 \<or> 12 < m \<longrightarrow> days_in_month m y = 0"
    by (auto simp: days_in_month_def)
  from a b c d e show ?thesis by blast
qed

theorem days_in_month_gregorian_witness:
  "days_in_month 2 2024 = gregorian_month_length 2 2024
   \<and> days_in_month 2 2024 = 29 \<and> is_leap_year 2024
   \<and> days_in_month 2 1900 = 28 \<and> days_in_month 4 2023 = 30
   \<and> days_in_month 13 2024 = 0 \<and> days_in_month 0 2024 = 0"
proof -
  have g: "gregorian_month_length 2 2024 = 29" by code_simp
  have l: "is_leap_year 2024" by code_simp
  have "days_in_month 2 2024 = 29"
    using days_in_month_gregorian [of 2 2024] l by simp
  moreover have "days_in_month 13 2024 = 0"
    using days_in_month_gregorian [of 13 2024] by simp
  moreover have "days_in_month 0 2024 = 0"
    using days_in_month_gregorian [of 0 2024] by simp
  moreover have "days_in_month 2 1900 = 28" by code_simp
  moreover have "days_in_month 4 2023 = 30" by code_simp
  ultimately show ?thesis using g l by simp
qed

subsection \<open>The buffer after a failure\<close>

text \<open>
  C10.  When \<open>naegeles_compute_edd\<close> or \<open>naegeles_compute_woa\<close> fails with a code other
  than those of the null and buffer-size checks, the buffer holds the fixed text of that
  failure afterwards: Invalid date, Date conversion error, System time error or LNMP is
  in the future.  After a failed null or buffer-size check the buffer is as it was.
\<close>

theorem error_text_written:
  "(naegeles_compute_edd lnmp out n = (e, out') \<longrightarrow>
      (if e = NAEGELES_OK then True
       else if e = NAEGELES_ERR_NULL_PARAM \<or> e = NAEGELES_ERR_BUFFER_TOO_SMALL then out' = out
       else e = NAEGELES_ERR_INVALID_DATE \<and> out' = Some ''Invalid date''))
   \<and> (naegeles_compute_woa mktime now lnmp out n = (e, out') \<longrightarrow>
      (if e = NAEGELES_OK then True
       else if e = NAEGELES_ERR_NULL_PARAM \<or> e = NAEGELES_ERR_BUFFER_TOO_SMALL then out' = out
       else (e = NAEGELES_ERR_INVALID_DATE \<and> out' = Some ''Invalid date'')
          \<or> (e = NAEGELES_ERR_DATE_CONVERSION \<and> out' = Some ''Date conversion error'')
          \<or> (e = NAEGELES_ERR_SYSTEM_TIME \<and> out' = Some ''System time error'')
          \<or> (e = NAEGELES_ERR_FUTURE_DATE \<and> out' = Some ''LNMP is in the future'')))"
proof -
  have a: "naegeles_compute_edd lnmp out n = (e, out') \<longrightarrow>
      (if e = NAEGELES_OK then True
       else if e = NAEGELES_ERR_NULL_PARAM \<or> e = NAEGELES_ERR_BUFFER_TOO_SMALL then out' = out
       else e = NAEGELES_ERR_INVALID_DATE \<and> out' = Some ''Invalid date'')"
    by (auto simp: naegeles_compute_edd_def snprintf_def DATE_STR_MAX_LEN_def
        split: option.splits if_splits)
  have b: "naegeles_compute_woa mktime now lnmp out n = (e, out') \<longrightarrow>
      (if e = NAEGELES_OK then True
       else if e = NAEGELES_ERR_NULL_PARAM \<or> e = NAEGELES_ERR_BUFFER_TOO_SMALL then out' = out
       else (e = NAEGELES_ERR_INVALID_DATE \<and> out' = Some ''Invalid date'')
          \<or> (e = NAEGELES_ERR_DATE_CONVERSION \<and> out' = Some ''Date conversion error'')
          \<or> (e = NAEGELES_ERR_SYSTEM_TIME \<and> out' = Some ''System time error'')
          \<or> (e = NAEGELES_ERR_FUTURE_DATE \<and> out' = Some ''LNMP is in the future''))"
    by (auto simp: naegeles_compute_woa_def snprintf_def WOA_STR_MAX_LEN_def Let_def
        split: option.splits if_splits)
  from a b show ?thesis by (rule conjI)
qed

theorem error_text_written_witness:
  "snd (naegeles_compute_edd (Some ''31/02/2024'') (Some ''junk'') 32) = Some ''Invalid date''
   \<and> snd (naegeles_compute_woa (\<lambda>ty tm td. 1704067200) 1700000000
        (Some ''31/02/2024'') (Some ''junk'') 32) = Some ''Invalid date''
   \<and> snd (naegeles_compute_woa (\<lambda>ty tm td. 1704067200) 1700000000
        (Some ''01/01/2024'') (Some ''junk'') 32) = Some ''LNMP is in the future''
   \<and> snd (naegeles_compute_edd None (Some ''junk'') 32) = Some ''junk''"
proof -
  let ?mk = "\<lambda>ty tm td. (1704067200 :: int)"
  have e1: "fst (naegeles_compute_edd (Some ''31/02/2024'') (Some ''junk'') 32) =
      NAEGELES_ERR_INVALID_DATE" by code_simp
  have e2: "fst (naegeles_compute_woa ?mk 1700000000 (Some ''31/02/2024'') (Some ''junk'') 32) =
      NAEGELES_ERR_INVALID_DATE" by code_simp
  have e3: "fst (naegeles_compute_woa ?mk 1700000000 (Some ''01/01/2024'') (Some ''junk'') 32) =
      NAEGELES_ERR_FUTURE_DATE" by code_simp
  have e4: "fst (naegeles_compute_edd None (Some ''junk'') 32) = NAEGELES_ERR_NULL_PARAM"
    by code_simp
  have "snd (naegeles_compute_edd (Some ''31/02/2024'') (Some ''junk'') 32) = Some ''Invalid date''"
    using error_text_written [of "Some ''31/02/2024''" "Some ''junk''" 32
        NAEGELES_ERR_INVALID_DATE
        "snd (naegeles_compute_edd (Some ''31/02/2024'') (Some ''junk'') 32)"
        ?mk 1700000000] e1 [symmetric]
    by (simp add: prod_eq_iff)
  moreover have "snd (naegeles_compute_woa ?mk 1700000000
        (Some ''31/02/2024'') (Some ''junk'') 32) = Some ''Invalid date''"
    using error_text_written [of "Some ''31/02/2024''" "Some ''junk''" 32
        NAEGELES_ERR_INVALID_DATE
        "snd (naegeles_compute_woa ?mk 1700000000 (Some ''31/02/2024'') (Some ''junk'') 32)"
        ?mk 1700000000] e2 [symmetric]
    by (simp add: prod_eq_iff)
  moreover have "snd (naegeles_compute_woa ?mk 1700000000
        (Some ''01/01/2024'') (Some ''junk'') 32) = Some ''LNMP is in the future''"
    using error_text_written [of "Some ''01/01/2024''" "Some ''junk''" 32
        NAEGELES_ERR_FUTURE_DATE
        "snd (naegeles_compute_woa ?mk 1700000000 (Some ''01/01/2024'') (Some ''junk'') 32)"
        ?mk 1700000000] e3 [symmetric]
    by (simp add: prod_eq_iff)
  moreover have "snd (naegeles_compute_edd None (Some ''junk'') 32) = Some ''junk''"
    using error_text_written [of None "Some ''junk''" 32
        NAEGELES_ERR_NULL_PARAM
        "snd (naegeles_compute_edd None (Some ''junk'') 32)"
        ?mk 1700000000] e4 [symmetric]
    by (simp add: prod_eq_iff)
  ultimately show ?thesis by simp
qed

end
